theory Spec2Isabelle
  imports
    Main
    "HOL-Library.Multiset"
    "HOL-Library.Char_ord"
    "HOL-Library.List_Lexorder"
begin

section \<open>The SmartNotes store (app/database.py)\<close>

text \<open>
  The class \<^verbatim>\<open>Database\<close> wraps one SQLite connection. The embedding keeps the state that
  this connection sees: the four tables of \<^verbatim>\<open>_init_schema\<close>, the full-text index
  \<^verbatim>\<open>notes_fts\<close> and the AUTOINCREMENT counters of \<^verbatim>\<open>sqlite_sequence\<close>. Every method
  takes the state and returns its result together with the new state; an exception of
  the driver is the left injection of the result. Tables are lists of rows in insertion
  (rowid) order. Identifiers and timestamps are Python integers; strings are lists of
  characters.
\<close>

subsection \<open>Rows and state\<close>

datatype error = IntegrityError | OperationalError

record folder_row =
  f_id :: int
  f_name :: string

record note_row =
  n_id :: int
  n_folder_id :: "int option"
  n_title :: string
  n_content :: string
  n_created_at :: int
  n_updated_at :: int

record tag_row =
  t_id :: int
  t_name :: string

record note_tag_row =
  nt_note_id :: int
  nt_tag_id :: int

record fts_row =
  fts_rowid :: int
  fts_title :: string
  fts_content :: string

record database =
  folders :: "folder_row list"
  note_rows :: "note_row list"
  tags :: "tag_row list"
  note_tags :: "note_tag_row list"
  notes_fts :: "fts_row list"
  seq_folders :: int
  seq_notes :: int
  seq_tags :: int

text \<open>\<^verbatim>\<open>Database(path)\<close> on a new file: \<^verbatim>\<open>_init_schema\<close> creates empty tables.\<close>

definition Database :: database where
  "Database = \<lparr>folders = [], note_rows = [], tags = [], note_tags = [], notes_fts = [],
     seq_folders = 0, seq_notes = 0, seq_tags = 0\<rparr>"

text \<open>
  \<^verbatim>\<open>INTEGER PRIMARY KEY AUTOINCREMENT\<close>: the new rowid is one more than the largest
  rowid the table ever held (the counter of \<^verbatim>\<open>sqlite_sequence\<close>, or a larger rowid
  present in the table).
\<close>

definition next_rowid :: "int \<Rightarrow> int list \<Rightarrow> int" where
  "next_rowid seq ids = fold max ids seq + 1"

subsection \<open>Text helpers\<close>

text \<open>
  \<^verbatim>\<open>str.strip()\<close> removes leading and trailing whitespace; within the first 256 code
  points these are the characters below.
\<close>

definition isspace :: "char \<Rightarrow> bool" where
  "isspace c = ((of_char c :: nat) \<in> {9, 10, 11, 12, 13, 28, 29, 30, 31, 32, 133, 160})"

definition strip :: "string \<Rightarrow> string" where
  "strip s = rev (dropWhile isspace (rev (dropWhile isspace s)))"

text \<open>\<^verbatim>\<open>COLLATE NOCASE\<close> folds the 26 upper-case ASCII letters before comparing.\<close>

definition nocase_char :: "char \<Rightarrow> char" where
  "nocase_char c =
     (let k = (of_char c :: nat) in if 65 \<le> k \<and> k \<le> 90 then char_of (k + 32) else c)"

definition nocase :: "string \<Rightarrow> string" where
  "nocase s = map nocase_char s"

subsection \<open>The index triggers\<close>

definition fts_entry :: "note_row \<Rightarrow> fts_row" where
  "fts_entry n = \<lparr>fts_rowid = n_id n, fts_title = n_title n, fts_content = n_content n\<rparr>"

text \<open>
  \<^verbatim>\<open>notes_ai\<close>: \<^verbatim>\<open>INSERT INTO notes_fts(rowid, title, content) VALUES (new.id, ...)\<close>.
\<close>

definition notes_ai :: "note_row \<Rightarrow> fts_row list \<Rightarrow> fts_row list" where
  "notes_ai new idx = idx @ [fts_entry new]"

text \<open>
  \<^verbatim>\<open>notes_ad\<close>: the \<^verbatim>\<open>'delete'\<close> command of the index with the old row's values takes
  the entry of that row out.
\<close>

definition notes_ad :: "note_row \<Rightarrow> fts_row list \<Rightarrow> fts_row list" where
  "notes_ad old idx = remove1 (fts_entry old) idx"

text \<open>\<^verbatim>\<open>notes_au\<close>: the \<^verbatim>\<open>'delete'\<close> of the old values, then the insert of the new.\<close>

definition notes_au :: "note_row \<Rightarrow> note_row \<Rightarrow> fts_row list \<Rightarrow> fts_row list" where
  "notes_au old new idx = notes_ai new (notes_ad old idx)"

text \<open>
  \<^verbatim>\<open>UPDATE notes SET ... WHERE P\<close>: every row that satisfies \<open>P\<close> is rewritten by \<open>f\<close>, and
  \<^verbatim>\<open>notes_au\<close> fires for each of them, in table order.
\<close>

definition update_notes_where ::
  "(note_row \<Rightarrow> bool) \<Rightarrow> (note_row \<Rightarrow> note_row) \<Rightarrow> database \<Rightarrow> database" where
  "update_notes_where P f db =
     db\<lparr>note_rows := map (\<lambda>n. if P n then f n else n) (note_rows db),
        notes_fts := fold (\<lambda>n idx. if P n then notes_au n (f n) idx else idx)
                       (note_rows db) (notes_fts db)\<rparr>"

subsection \<open>Folders\<close>

text \<open>\<^verbatim>\<open>SELECT id, name FROM folders ORDER BY name COLLATE NOCASE\<close>.\<close>

definition list_folders :: "database \<Rightarrow> folder_row list" where
  "list_folders db = sort_key (\<lambda>f. nocase (f_name f)) (folders db)"

text \<open>
  \<^verbatim>\<open>INSERT INTO folders(name)\<close>: the column is \<^verbatim>\<open>TEXT UNIQUE NOT NULL\<close> with the default
  (binary) collation, so an equal name already in the table raises IntegrityError and
  the statement changes nothing.
\<close>

definition create_folder :: "database \<Rightarrow> string \<Rightarrow> (error + int) \<times> database" where
  "create_folder db name =
     (if name \<in> set (map f_name (folders db)) then (Inl IntegrityError, db)
      else
        let new_id = next_rowid (seq_folders db) (map f_id (folders db)) in
        (Inr new_id,
         db\<lparr>folders := folders db @ [\<lparr>f_id = new_id, f_name = name\<rparr>],
            seq_folders := new_id\<rparr>))"

text \<open>\<^verbatim>\<open>UPDATE folders SET name=? WHERE id=?\<close>, under the same UNIQUE constraint.\<close>

definition rename_folder :: "database \<Rightarrow> int \<Rightarrow> string \<Rightarrow> (error + unit) \<times> database" where
  "rename_folder db folder_id name =
     (if list_ex (\<lambda>f. f_id f = folder_id) (folders db) \<and>
         list_ex (\<lambda>g. f_id g \<noteq> folder_id \<and> f_name g = name) (folders db)
      then (Inl IntegrityError, db)
      else
        (Inr (),
         db\<lparr>folders :=
              map (\<lambda>f. if f_id f = folder_id then f\<lparr>f_name := name\<rparr> else f) (folders db)\<rparr>))"

text \<open>
  \<^verbatim>\<open>DELETE FROM folders WHERE id=?\<close>. \<^verbatim>\<open>notes.folder_id\<close> is declared
  \<^verbatim>\<open>REFERENCES folders(id) ON DELETE SET NULL\<close> and foreign keys are on: when a folder
  row goes, the notes that refer to it are updated to NULL (an update of \<^verbatim>\<open>notes\<close>, so
  \<^verbatim>\<open>notes_au\<close> fires for them).
\<close>

definition delete_folder :: "database \<Rightarrow> int \<Rightarrow> (error + unit) \<times> database" where
  "delete_folder db folder_id =
     (if list_ex (\<lambda>f. f_id f = folder_id) (folders db)
      then
        (Inr (),
         update_notes_where (\<lambda>n. n_folder_id n = Some folder_id)
           (\<lambda>n. n\<lparr>n_folder_id := None\<rparr>)
           (db\<lparr>folders := filter (\<lambda>f. f_id f \<noteq> folder_id) (folders db)\<rparr>))
      else (Inr (), db))"

subsection \<open>Notes\<close>

text \<open>The foreign key of \<^verbatim>\<open>notes.folder_id\<close>: NULL, or the id of a folder row.\<close>

definition folder_fk_ok :: "database \<Rightarrow> int option \<Rightarrow> bool" where
  "folder_fk_ok db folder_id =
     (case folder_id of None \<Rightarrow> True | Some f \<Rightarrow> f \<in> set (map f_id (folders db)))"

text \<open>
  \<^verbatim>\<open>create_note\<close>; \<open>now\<close> is the value of \<^verbatim>\<open>int(time.time())\<close> read by the call.
\<close>

definition create_note ::
  "database \<Rightarrow> int option \<Rightarrow> string \<Rightarrow> int \<Rightarrow> (error + int) \<times> database" where
  "create_note db folder_id title now =
     (if \<not> folder_fk_ok db folder_id then (Inl IntegrityError, db)
      else
        let new_id = next_rowid (seq_notes db) (map n_id (note_rows db));
            new = \<lparr>n_id = new_id, n_folder_id = folder_id, n_title = title, n_content = [],
                   n_created_at = now, n_updated_at = now\<rparr>
        in (Inr new_id,
            db\<lparr>note_rows := note_rows db @ [new],
               notes_fts := notes_ai new (notes_fts db),
               seq_notes := new_id\<rparr>))"

definition update_note ::
  "database \<Rightarrow> int \<Rightarrow> string \<Rightarrow> string \<Rightarrow> int option \<Rightarrow> int \<Rightarrow> (error + unit) \<times> database"
  where
  "update_note db note_id title content folder_id now =
     (if list_ex (\<lambda>n. n_id n = note_id) (note_rows db) \<and> \<not> folder_fk_ok db folder_id
      then (Inl IntegrityError, db)
      else
        (Inr (),
         update_notes_where (\<lambda>n. n_id n = note_id)
           (\<lambda>n. n\<lparr>n_title := title, n_content := content, n_folder_id := folder_id,
                  n_updated_at := now\<rparr>) db))"

text \<open>
  \<^verbatim>\<open>DELETE FROM notes WHERE id=?\<close>: \<^verbatim>\<open>notes_ad\<close> fires for each deleted row, and
  \<^verbatim>\<open>note_tags.note_id\<close> is \<^verbatim>\<open>ON DELETE CASCADE\<close>.
\<close>

definition delete_note :: "database \<Rightarrow> int \<Rightarrow> (error + unit) \<times> database" where
  "delete_note db note_id =
     (Inr (),
      db\<lparr>note_rows := filter (\<lambda>n. n_id n \<noteq> note_id) (note_rows db),
         notes_fts := fold (\<lambda>n idx. if n_id n = note_id then notes_ad n idx else idx)
                        (note_rows db) (notes_fts db),
         note_tags :=
           (if list_ex (\<lambda>n. n_id n = note_id) (note_rows db)
            then filter (\<lambda>l. nt_note_id l \<noteq> note_id) (note_tags db)
            else note_tags db)\<rparr>)"

text \<open>\<^verbatim>\<open>SELECT ... FROM notes WHERE id=?\<close>, \<^verbatim>\<open>fetchone()\<close>.\<close>

definition get_note :: "database \<Rightarrow> int \<Rightarrow> note_row option" where
  "get_note db note_id = find (\<lambda>n. n_id n = note_id) (note_rows db)"

definition move_note :: "database \<Rightarrow> int \<Rightarrow> int option \<Rightarrow> int \<Rightarrow> (error + unit) \<times> database"
  where
  "move_note db note_id to_folder_id now =
     (if list_ex (\<lambda>n. n_id n = note_id) (note_rows db) \<and> \<not> folder_fk_ok db to_folder_id
      then (Inl IntegrityError, db)
      else
        (Inr (),
         update_notes_where (\<lambda>n. n_id n = note_id)
           (\<lambda>n. n\<lparr>n_folder_id := to_folder_id, n_updated_at := now\<rparr>) db))"

subsection \<open>Tags\<close>

text \<open>
  \<^verbatim>\<open>SELECT t.id, t.name FROM tags t JOIN note_tags nt ON nt.tag_id = t.id
  WHERE nt.note_id=? ORDER BY t.name COLLATE NOCASE\<close>.
\<close>

definition list_note_tags :: "database \<Rightarrow> int \<Rightarrow> tag_row list" where
  "list_note_tags db note_id =
     sort_key (\<lambda>t. nocase (t_name t))
       (concat (map (\<lambda>t. map (\<lambda>l. t)
           (filter (\<lambda>l. nt_tag_id l = t_id t \<and> nt_note_id l = note_id) (note_tags db)))
         (tags db)))"

text \<open>
  The first loop of \<^verbatim>\<open>set_note_tags\<close>: \<^verbatim>\<open>INSERT INTO tags(name)\<close>, and when the UNIQUE
  constraint (binary collation) raises IntegrityError, \<^verbatim>\<open>SELECT id FROM tags WHERE name=?\<close>.
\<close>

fun insert_or_lookup_tags :: "string list \<Rightarrow> database \<Rightarrow> int list \<Rightarrow> int list \<times> database"
  where
  "insert_or_lookup_tags [] db tag_ids = (tag_ids, db)"
| "insert_or_lookup_tags (name # names) db tag_ids =
     (if name \<in> set (map t_name (tags db))
      then
        (case find (\<lambda>t. t_name t = name) (tags db) of
           Some row \<Rightarrow> insert_or_lookup_tags names db (tag_ids @ [t_id row])
         | None \<Rightarrow> insert_or_lookup_tags names db tag_ids)
      else
        let new_id = next_rowid (seq_tags db) (map t_id (tags db)) in
        insert_or_lookup_tags names
          (db\<lparr>tags := tags db @ [\<lparr>t_id = new_id, t_name = name\<rparr>], seq_tags := new_id\<rparr>)
          (tag_ids @ [new_id]))"

text \<open>
  The second loop: \<^verbatim>\<open>INSERT OR IGNORE INTO note_tags(note_id, tag_id)\<close>. A pair already
  in the table is skipped (primary key); otherwise both foreign keys are checked, and a
  missing note or tag raises IntegrityError out of \<^verbatim>\<open>set_note_tags\<close>, before its commit
  and its sweep.
\<close>

fun link_tags :: "int \<Rightarrow> int list \<Rightarrow> database \<Rightarrow> (error + unit) \<times> database" where
  "link_tags note_id [] db = (Inr (), db)"
| "link_tags note_id (tid # tids) db =
     (if list_ex (\<lambda>l. nt_note_id l = note_id \<and> nt_tag_id l = tid) (note_tags db)
      then link_tags note_id tids db
      else if \<not> (note_id \<in> set (map n_id (note_rows db)) \<and> tid \<in> set (map t_id (tags db)))
      then (Inl IntegrityError, db)
      else link_tags note_id tids
             (db\<lparr>note_tags := note_tags db @ [\<lparr>nt_note_id = note_id, nt_tag_id = tid\<rparr>]\<rparr>))"

text \<open>\<^verbatim>\<open>DELETE FROM tags WHERE id NOT IN (SELECT tag_id FROM note_tags)\<close>.\<close>

definition clean_unused_tags :: "database \<Rightarrow> database" where
  "clean_unused_tags db =
     db\<lparr>tags := filter (\<lambda>t. t_id t \<in> set (map nt_tag_id (note_tags db))) (tags db)\<rparr>"

definition set_note_tags :: "database \<Rightarrow> int \<Rightarrow> string list \<Rightarrow> (error + unit) \<times> database"
  where
  "set_note_tags db note_id tag_names =
     (let names = map strip (filter (\<lambda>n. strip n \<noteq> []) tag_names);
          (tag_ids, db1) = insert_or_lookup_tags names db [];
          db2 = db1\<lparr>note_tags := filter (\<lambda>l. nt_note_id l \<noteq> note_id) (note_tags db1)\<rparr>
      in case link_tags note_id tag_ids db2 of
           (Inl e, db3) \<Rightarrow> (Inl e, db3)
         | (Inr u, db3) \<Rightarrow> (Inr (), clean_unused_tags db3))"

record tag_usage =
  tu_id :: int
  tu_name :: string
  usage_count :: int

text \<open>
  \<^verbatim>\<open>all_tags\<close>: the LEFT JOIN keeps a tag without links, with count 0. \<^verbatim>\<open>tags.id\<close> is
  the primary key, so every tag row is a group of its own.
\<close>

definition all_tags :: "database \<Rightarrow> tag_usage list" where
  "all_tags db =
     sort_key (\<lambda>r. nocase (tu_name r))
       (map (\<lambda>t. \<lparr>tu_id = t_id t, tu_name = t_name t,
                  usage_count = int (length (filter (\<lambda>l. nt_tag_id l = t_id t) (note_tags db)))\<rparr>)
          (tags db))"

subsection \<open>Search\<close>

record note_summary =
  s_id :: int
  s_title :: string
  s_content :: string
  s_folder_id :: "int option"
  s_updated_at :: int
  s_tags :: "tag_row list"

definition dquote :: char where
  "dquote = CHR 0x22"

text \<open>\<^verbatim>\<open>query.replace('"', '""')\<close>.\<close>

definition replace_quotes :: "string \<Rightarrow> string" where
  "replace_quotes q = concat (map (\<lambda>c. if c = dquote then [dquote, dquote] else [c]) q)"

text \<open>The MATCH argument that \<^verbatim>\<open>search_notes\<close> builds from a non-empty query.\<close>

definition fts_query :: "string \<Rightarrow> string" where
  "fts_query query =
     (let clean_q = replace_quotes query in
      if CHR '' '' \<in> set clean_q then [dquote] @ clean_q @ [dquote]
      else [dquote] @ clean_q @ [dquote] @ ''*'')"

text \<open>
  The full-text engine is SQLite's FTS5 module, not code of this repository; it is a
  parameter. Given a MATCH argument it either rejects it (\<open>None\<close>: the driver raises
  \<^verbatim>\<open>sqlite3.OperationalError\<close>) or decides for every index entry whether it matches.
\<close>

type_synonym fts5 = "string \<Rightarrow> (fts_row \<Rightarrow> bool) option"

text \<open>
  The tag subquery: \<^verbatim>\<open>SELECT nt.note_id FROM note_tags nt WHERE nt.tag_id IN (...)
  GROUP BY nt.note_id HAVING COUNT(DISTINCT nt.tag_id) = len(tag_ids)\<close>.
\<close>

definition tag_subquery :: "database \<Rightarrow> int list \<Rightarrow> int list" where
  "tag_subquery db tag_ids =
     (let rows = filter (\<lambda>l. nt_tag_id l \<in> set tag_ids) (note_tags db) in
      filter
        (\<lambda>nid. length (remdups (map nt_tag_id (filter (\<lambda>l. nt_note_id l = nid) rows)))
                = length tag_ids)
        (remdups (map nt_note_id rows)))"

text \<open>The three optional conditions of the WHERE clause, joined by AND.\<close>

definition folder_cond :: "int option \<Rightarrow> note_row \<Rightarrow> bool" where
  "folder_cond folder_id n =
     (case folder_id of None \<Rightarrow> True | Some f \<Rightarrow> n_folder_id n = Some f)"

definition text_cond :: "database \<Rightarrow> string \<Rightarrow> (fts_row \<Rightarrow> bool) \<Rightarrow> note_row \<Rightarrow> bool" where
  "text_cond db query m n =
     (if query \<noteq> [] then n_id n \<in> set (map fts_rowid (filter m (notes_fts db))) else True)"

definition tag_cond :: "database \<Rightarrow> int list \<Rightarrow> note_row \<Rightarrow> bool" where
  "tag_cond db tag_ids n =
     (if tag_ids \<noteq> [] then n_id n \<in> set (tag_subquery db tag_ids) else True)"

text \<open>
  \<^verbatim>\<open>ORDER BY n.updated_at DESC LIMIT 1000\<close>. SQL leaves the order of equal timestamps
  open; the model keeps them in table order.
\<close>

definition order_limit :: "note_row list \<Rightarrow> note_row list" where
  "order_limit rows = take 1000 (sort_key (\<lambda>n. - n_updated_at n) rows)"

text \<open>\<^verbatim>\<open>cur.execute(sql, params)\<close> of \<^verbatim>\<open>search_notes\<close>, with \<^verbatim>\<open>fetchall()\<close>.\<close>

definition execute_search ::
  "fts5 \<Rightarrow> database \<Rightarrow> int option \<Rightarrow> string \<Rightarrow> int list \<Rightarrow> error + note_row list" where
  "execute_search match db folder_id query tag_ids =
     (case (if query \<noteq> [] then match (fts_query query) else Some (\<lambda>e. True)) of
        None \<Rightarrow> Inl OperationalError
      | Some m \<Rightarrow>
          Inr (order_limit
                 (filter (\<lambda>n. folder_cond folder_id n \<and> text_cond db query m n \<and>
                              tag_cond db tag_ids n)
                    (note_rows db))))"

definition summary :: "database \<Rightarrow> note_row \<Rightarrow> note_summary" where
  "summary db r =
     \<lparr>s_id = n_id r, s_title = n_title r, s_content = n_content r,
      s_folder_id = n_folder_id r, s_updated_at = n_updated_at r,
      s_tags = list_note_tags db (n_id r)\<rparr>"

definition search_notes ::
  "fts5 \<Rightarrow> database \<Rightarrow> int option \<Rightarrow> string \<Rightarrow> int list \<Rightarrow> error + note_summary list" where
  "search_notes match db folder_id query tag_ids =
     (case execute_search match db folder_id query tag_ids of
        Inl OperationalError \<Rightarrow> Inr []
      | Inl e \<Rightarrow> Inl e
      | Inr rows \<Rightarrow> Inr (map (summary db) rows))"

subsection \<open>Sequences of calls\<close>

text \<open>The mutating methods of the class, as the calls a client can make.\<close>

datatype call =
    CreateFolder string
  | RenameFolder int string
  | DeleteFolder int
  | CreateNote "int option" string int
  | UpdateNote int string string "int option" int
  | DeleteNote int
  | MoveNote int "int option" int
  | SetNoteTags int "string list"

text \<open>
  One call: the state afterwards. A call that raises leaves the state the connection
  holds at that point, as the caller of the class sees it.
\<close>

fun step :: "database \<Rightarrow> call \<Rightarrow> database" where
  "step db (CreateFolder name) = snd (create_folder db name)"
| "step db (RenameFolder fid name) = snd (rename_folder db fid name)"
| "step db (DeleteFolder fid) = snd (delete_folder db fid)"
| "step db (CreateNote fid title now) = snd (create_note db fid title now)"
| "step db (UpdateNote nid title content fid now) =
     snd (update_note db nid title content fid now)"
| "step db (DeleteNote nid) = snd (delete_note db nid)"
| "step db (MoveNote nid fid now) = snd (move_note db nid fid now)"
| "step db (SetNoteTags nid names) = snd (set_note_tags db nid names)"

definition run :: "call list \<Rightarrow> database \<Rightarrow> database" where
  "run calls db = foldl step db calls"

subsection \<open>Example states\<close>

text \<open>A folder with two notes in it.\<close>

definition two_notes_in_folder :: database where
  "two_notes_in_folder =
     snd (create_note (snd (create_note (snd (create_folder Database ''F'')) (Some 1) ''N1'' 10))
       (Some 1) ''N2'' 20)"

text \<open>One note, created at second 100 with empty title and body.\<close>

definition fresh_note :: database where
  "fresh_note = snd (create_note Database None [] 100)"

text \<open>Three notes tagged \<open>{A}\<close>, \<open>{A, B}\<close> and \<open>{B}\<close>; the tags get the identifiers 1 and 2.\<close>

definition tagged_notes :: database where
  "tagged_notes =
     run [CreateNote None ''n1'' 10, CreateNote None ''n2'' 20, CreateNote None ''n3'' 30,
          SetNoteTags 1 [''A''], SetNoteTags 2 [''A'', ''B''], SetNoteTags 3 [''B'']] Database"

subsection \<open>Notions of the specification\<close>

text \<open>The tags a note carries: the tag identifiers of its rows in \<^verbatim>\<open>note_tags\<close>.\<close>

definition note_tag_ids :: "database \<Rightarrow> int \<Rightarrow> int set" where
  "note_tag_ids db nid = set (map nt_tag_id (filter (\<lambda>l. nt_note_id l = nid) (note_tags db)))"


text \<open>
  The index is consistent with the notes: for every note, the entries of the index under
  the note's identifier are exactly one entry, with the note's current title and body;
  and every entry of the index belongs to a note of the table.
\<close>

definition index_consistent :: "database \<Rightarrow> bool" where
  "index_consistent db \<longleftrightarrow>
     (\<forall>n \<in> set (note_rows db).
        filter (\<lambda>e. fts_rowid e = n_id n) (notes_fts db) = [fts_entry n]) \<and>
     (\<forall>e \<in> set (notes_fts db). fts_rowid e \<in> set (map n_id (note_rows db)))"

text \<open>
  The invariant behind it: the index holds the entries of the notes, each once, as a
  multiset, and no two notes share an identifier.
\<close>

definition fts_synced :: "database \<Rightarrow> bool" where
  "fts_synced db \<longleftrightarrow>
     mset (notes_fts db) = mset (map fts_entry (note_rows db)) \<and>
     distinct (map n_id (note_rows db))"

text \<open>A note created and edited, a second note created and deleted.\<close>

definition edited_notes :: "call list" where
  "edited_notes =
     [CreateNote None ''a'' 1, UpdateNote 1 ''b'' ''c'' None 2, CreateNote None ''d'' 3,
      DeleteNote 2]"

section \<open>Properties\<close>

subsection \<open>Row identifiers\<close>

lemma fold_max_ge_init: "(s::int) \<le> fold max xs s"
  by (induction xs arbitrary: s) (auto intro: order_trans[OF max.cobounded2])

lemma fold_max_ge_mem: "(x::int) \<in> set xs \<Longrightarrow> x \<le> fold max xs s"
proof (induction xs arbitrary: s)
  case Nil
  then show ?case by simp
next
  case (Cons a xs)
  show ?case
  proof (cases "x = a")
    case True
    have "a \<le> max a s" by simp
    also have "\<dots> \<le> fold max xs (max a s)" by (rule fold_max_ge_init)
    finally show ?thesis using True by simp
  next
    case False
    with Cons show ?thesis by simp
  qed
qed

lemma next_rowid_fresh: "next_rowid s ids \<notin> set ids"
proof
  assume "next_rowid s ids \<in> set ids"
  then have "next_rowid s ids \<le> fold max ids s" by (rule fold_max_ge_mem)
  then show False by (simp add: next_rowid_def)
qed

subsection \<open>Folder names\<close>

text \<open>
  C9 (as amended). \<^verbatim>\<open>create_folder\<close> with a name equal, character for character, to
  the name of a folder in the table raises IntegrityError and leaves the whole state as
  it was; with any other name it succeeds and appends one folder under a fresh
  identifier. The comparison is the binary one of the UNIQUE column, not a
  case-insensitive one.
\<close>

theorem create_folder_duplicate:
  "(name \<in> set (map f_name (folders db)) \<longrightarrow>
      create_folder db name = (Inl IntegrityError, db)) \<and>
   (name \<notin> set (map f_name (folders db)) \<longrightarrow>
      (\<exists>i. fst (create_folder db name) = Inr i \<and> i \<notin> set (map f_id (folders db)) \<and>
           folders (snd (create_folder db name)) = folders db @ [\<lparr>f_id = i, f_name = name\<rparr>]))"
  by (auto simp: create_folder_def Let_def next_rowid_fresh simp del: set_map)

theorem create_folder_duplicate_witness:
  "create_folder (snd (create_folder Database ''Work'')) ''Work''
     = (Inl IntegrityError, snd (create_folder Database ''Work''))"
proof -
  have "''Work'' \<in> set (map f_name (folders (snd (create_folder Database ''Work''))))"
    by code_simp
  with create_folder_duplicate [of "''Work''" "snd (create_folder Database ''Work'')"]
  show ?thesis by blast
qed

text \<open>
  The claim as stated fails: after a folder \<^verbatim>\<open>Work\<close>, creating \<^verbatim>\<open>work\<close> (the same name
  under NOCASE) succeeds and the table holds both.
\<close>

theorem create_folder_case_counterexample:
  "nocase ''work'' = nocase ''Work'' \<and>
   fst (create_folder (snd (create_folder Database ''Work'')) ''work'') = Inr 2 \<and>
   map f_name (folders (snd (create_folder (snd (create_folder Database ''Work'')) ''work'')))
     = [''Work'', ''work'']"
  by code_simp

lemma set_list_folders: "set (list_folders db) = set (folders db)"
  by (simp add: list_folders_def)

subsection \<open>Deleting a folder\<close>

text \<open>
  C6. \<^verbatim>\<open>delete_folder\<close> never raises and deletes no note: the identifiers of the notes
  are the same before and after; when the folder exists, every note that referred to it
  has its folder reference set to NULL and every other field, of every note, is as
  before; and the folder is not in \<^verbatim>\<open>list_folders\<close> afterwards.
\<close>

theorem delete_folder_keeps_notes:
  "fst (delete_folder db fid) = Inr () \<and>
   map n_id (note_rows (snd (delete_folder db fid))) = map n_id (note_rows db) \<and>
   (fid \<in> set (map f_id (folders db)) \<longrightarrow>
      note_rows (snd (delete_folder db fid)) =
        map (\<lambda>n. if n_folder_id n = Some fid then n\<lparr>n_folder_id := None\<rparr> else n) (note_rows db)) \<and>
   fid \<notin> set (map f_id (list_folders (snd (delete_folder db fid))))"
  by (auto simp: delete_folder_def update_notes_where_def set_list_folders list_ex_iff)

theorem delete_folder_keeps_notes_witness:
  "map f_id (folders two_notes_in_folder) = [1] \<and>
   map n_folder_id (note_rows two_notes_in_folder) = [Some 1, Some 1] \<and>
   map n_id (note_rows (snd (delete_folder two_notes_in_folder 1))) = [1, 2] \<and>
   map n_folder_id (note_rows (snd (delete_folder two_notes_in_folder 1))) = [None, None] \<and>
   list_folders (snd (delete_folder two_notes_in_folder 1)) = []"
proof -
  have a: "map f_id (folders two_notes_in_folder) = [1]" by code_simp
  have b: "note_rows two_notes_in_folder =
     [\<lparr>n_id = 1, n_folder_id = Some 1, n_title = ''N1'', n_content = [], n_created_at = 10, n_updated_at = 10\<rparr>,
      \<lparr>n_id = 2, n_folder_id = Some 1, n_title = ''N2'', n_content = [], n_created_at = 20, n_updated_at = 20\<rparr>]"
    by code_simp
  have c: "list_folders (snd (delete_folder two_notes_in_folder 1)) = []" by code_simp
  from a have "1 \<in> set (map f_id (folders two_notes_in_folder))" by simp
  with delete_folder_keeps_notes [of two_notes_in_folder 1]
  have "note_rows (snd (delete_folder two_notes_in_folder 1)) =
        map (\<lambda>n. if n_folder_id n = Some 1 then n\<lparr>n_folder_id := None\<rparr> else n)
          (note_rows two_notes_in_folder)" by blast
  with a b c show ?thesis by simp
qed

subsection \<open>Timestamps\<close>

lemma find_snoc:
  "find P (xs @ [x]) = (case find P xs of None \<Rightarrow> (if P x then Some x else None) | Some y \<Rightarrow> Some y)"
  by (induction xs) auto

lemma find_map_id:
  "(\<And>n. n_id (g n) = n_id n) \<Longrightarrow>
   find (\<lambda>n. n_id n = i) (map g xs) = map_option g (find (\<lambda>n. n_id n = i) xs)"
  by (induction xs) auto

text \<open>
  C8 (as amended). The note that \<^verbatim>\<open>create_note\<close> returns has \<open>created_at\<close> and
  \<open>updated_at\<close> both equal to the clock value of the call, and an empty body. A
  successful \<^verbatim>\<open>update_note\<close> of an existing note leaves \<open>created_at\<close> as it was and
  sets \<open>updated_at\<close> to the clock value of the update (whole seconds), whatever the
  previous value was.
\<close>

theorem note_timestamps:
  "(create_note db folder_id title now = (Inr i, db') \<longrightarrow>
      (\<exists>n. get_note db' i = Some n \<and> n_created_at n = now \<and> n_updated_at n = now \<and>
           n_title n = title \<and> n_content n = [])) \<and>
   (get_note db1 note_id = Some n \<and>
    update_note db1 note_id title' content' folder_id' now' = (Inr u, db'') \<longrightarrow>
      get_note db'' note_id =
        Some (n\<lparr>n_title := title', n_content := content', n_folder_id := folder_id',
                n_updated_at := now'\<rparr>) \<and>
      n_created_at (the (get_note db'' note_id)) = n_created_at n \<and>
      n_updated_at (the (get_note db'' note_id)) = now')"
proof (intro conjI impI)
  assume a: "create_note db folder_id title now = (Inr i, db')"
  have "find (\<lambda>n. n_id n = next_rowid (seq_notes db) (map n_id (note_rows db))) (note_rows db) = None"
    using next_rowid_fresh [of "seq_notes db" "map n_id (note_rows db)"]
    by (auto simp: find_None_iff image_iff)
  with a show "\<exists>n. get_note db' i = Some n \<and> n_created_at n = now \<and> n_updated_at n = now \<and>
           n_title n = title \<and> n_content n = []"
    by (auto simp: create_note_def get_note_def Let_def find_snoc split: if_splits)
next
  assume a: "get_note db1 note_id = Some n \<and>
    update_note db1 note_id title' content' folder_id' now' = (Inr u, db'')"
  let ?g = "\<lambda>n. if n_id n = note_id
      then n\<lparr>n_title := title', n_content := content', n_folder_id := folder_id', n_updated_at := now'\<rparr>
      else n"
  from a have id: "n_id n = note_id"
    by (auto simp: get_note_def dest: find_Some_iff[THEN iffD1])
  from a have "note_rows db'' = map ?g (note_rows db1)"
    by (auto simp: update_note_def update_notes_where_def split: if_splits)
  then have "get_note db'' note_id = map_option ?g (get_note db1 note_id)"
    unfolding get_note_def by (simp add: find_map_id)
  with a id show g: "get_note db'' note_id =
        Some (n\<lparr>n_title := title', n_content := content', n_folder_id := folder_id',
                n_updated_at := now'\<rparr>)" by simp
  from g show "n_created_at (the (get_note db'' note_id)) = n_created_at n" by simp
  from g show "n_updated_at (the (get_note db'' note_id)) = now'" by simp
qed

theorem note_timestamps_witness:
  "create_note Database None [] 100 = (Inr 1, fresh_note) \<and>
   map_option n_created_at (get_note fresh_note 1) = Some 100 \<and>
   map_option n_updated_at (get_note fresh_note 1) = Some 100 \<and>
   map_option n_created_at (get_note (snd (update_note fresh_note 1 [] ''body'' None 107)) 1) = Some 100 \<and>
   map_option n_updated_at (get_note (snd (update_note fresh_note 1 [] ''body'' None 107)) 1) = Some 107"
proof -
  have a: "create_note Database None [] 100 = (Inr 1, fresh_note)" by code_simp
  have b: "get_note fresh_note 1 = Some \<lparr>n_id = 1, n_folder_id = None, n_title = [], n_content = [],
      n_created_at = 100, n_updated_at = 100\<rparr>" by code_simp
  have c: "update_note fresh_note 1 [] ''body'' None 107
      = (Inr (), snd (update_note fresh_note 1 [] ''body'' None 107))" by code_simp
  from note_timestamps [where db = Database and folder_id = None and title = "[]" and now = 100
      and i = 1 and db' = fresh_note and ?db1.0 = fresh_note and note_id = 1 and title' = "[]"
      and content' = "''body''" and folder_id' = None and now' = 107 and u = "()"
      and db'' = "snd (update_note fresh_note 1 [] ''body'' None 107)"] a b c
  show ?thesis by simp
qed

text \<open>
  The claim as stated fails: an update of the body in the second of the creation leaves
  \<open>updated_at\<close> at the value it had, so it does not strictly increase.
\<close>

theorem update_same_second_counterexample:
  "map_option n_updated_at (get_note fresh_note 1) = Some 100 \<and>
   fst (update_note fresh_note 1 [] ''body'' None 100) = Inr () \<and>
   map_option n_content (get_note (snd (update_note fresh_note 1 [] ''body'' None 100)) 1) = Some ''body'' \<and>
   map_option n_updated_at (get_note (snd (update_note fresh_note 1 [] ''body'' None 100)) 1) = Some 100"
  by code_simp

subsection \<open>The tag filter of the search\<close>

lemma tag_subquery_iff:
  "nid \<in> set (tag_subquery db tag_ids) \<longleftrightarrow>
     note_tag_ids db nid \<inter> set tag_ids \<noteq> {} \<and>
     card (note_tag_ids db nid \<inter> set tag_ids) = length tag_ids"
proof -
  have eq: "set (map nt_tag_id (filter (\<lambda>l. nt_note_id l = nid)
               (filter (\<lambda>l. nt_tag_id l \<in> set tag_ids) (note_tags db))))
        = note_tag_ids db nid \<inter> set tag_ids"
    by (auto simp: note_tag_ids_def)
  have "length (remdups (map nt_tag_id (filter (\<lambda>l. nt_note_id l = nid)
               (filter (\<lambda>l. nt_tag_id l \<in> set tag_ids) (note_tags db)))))
        = card (note_tag_ids db nid \<inter> set tag_ids)"
    unfolding eq [symmetric] by (simp only: card_set)
  moreover have "nid \<in> set (map nt_note_id (filter (\<lambda>l. nt_tag_id l \<in> set tag_ids) (note_tags db)))
        \<longleftrightarrow> note_tag_ids db nid \<inter> set tag_ids \<noteq> {}"
    by (auto simp: note_tag_ids_def)
  ultimately show ?thesis
    unfolding tag_subquery_def Let_def set_filter set_remdups mem_Collect_eq
    by (simp only:)
qed

lemma tag_subquery_distinct:
  assumes "tag_ids \<noteq> []" "distinct tag_ids"
  shows "nid \<in> set (tag_subquery db tag_ids) \<longleftrightarrow> set tag_ids \<subseteq> note_tag_ids db nid"
proof -
  have len: "length tag_ids = card (set tag_ids)"
    using assms(2) by (simp add: distinct_card)
  have ne: "set tag_ids \<noteq> {}" using assms(1) by simp
  show ?thesis
  proof
    assume "nid \<in> set (tag_subquery db tag_ids)"
    then have "card (note_tag_ids db nid \<inter> set tag_ids) = card (set tag_ids)"
      by (simp add: tag_subquery_iff len)
    then have "note_tag_ids db nid \<inter> set tag_ids = set tag_ids"
      by (intro card_subset_eq) auto
    then show "set tag_ids \<subseteq> note_tag_ids db nid" by blast
  next
    assume "set tag_ids \<subseteq> note_tag_ids db nid"
    then have "note_tag_ids db nid \<inter> set tag_ids = set tag_ids" by blast
    with ne len show "nid \<in> set (tag_subquery db tag_ids)"
      by (simp add: tag_subquery_iff)
  qed
qed

lemma tag_subquery_duplicate:
  assumes "\<not> distinct tag_ids"
  shows "tag_subquery db tag_ids = []"
proof -
  have "card (set tag_ids) < length tag_ids"
    using assms card_length [of tag_ids] distinct_card [of tag_ids] card_distinct [of tag_ids]
    by (cases "card (set tag_ids) = length tag_ids") auto
  moreover have "card (note_tag_ids db nid \<inter> set tag_ids) \<le> card (set tag_ids)" for nid
    by (rule card_mono) auto
  ultimately have "nid \<notin> set (tag_subquery db tag_ids)" for nid
    using tag_subquery_iff [of nid db tag_ids] by (metis not_le order_refl le_less_trans less_irrefl)
  then show ?thesis by (cases "tag_subquery db tag_ids") auto
qed

text \<open>
  C4. For a non-empty list of distinct tag identifiers, \<^verbatim>\<open>search_notes\<close> returns the
  notes that pass the folder and text conditions and carry every given tag (the given
  identifiers are a subset of the note's), in the order and under the limit of every
  search; when the full-text engine rejects the query the result is empty. In the
  witness, of three notes tagged \<open>{A}\<close>, \<open>{A, B}\<close>, \<open>{B}\<close> the filter \<open>[A, B]\<close> returns
  the second only.
\<close>

theorem search_tag_filter:
  assumes "tag_ids \<noteq> []" "distinct tag_ids"
  shows "search_notes match db folder_id query tag_ids =
     (case (if query \<noteq> [] then match (fts_query query) else Some (\<lambda>e. True)) of
        None \<Rightarrow> Inr []
      | Some m \<Rightarrow>
          Inr (map (summary db)
                 (order_limit
                    (filter (\<lambda>n. folder_cond folder_id n \<and> text_cond db query m n \<and>
                                 set tag_ids \<subseteq> note_tag_ids db (n_id n))
                       (note_rows db)))))"
proof -
  have "tag_cond db tag_ids n \<longleftrightarrow> set tag_ids \<subseteq> note_tag_ids db (n_id n)" for n
    using assms by (simp add: tag_cond_def tag_subquery_distinct)
  then show ?thesis
    by (simp add: search_notes_def execute_search_def split: option.splits)
qed

theorem search_tag_filter_witness:
  "map t_id (tags tagged_notes) = [1, 2] \<and>
   map (\<lambda>l. (nt_note_id l, nt_tag_id l)) (note_tags tagged_notes) = [(1, 1), (2, 1), (2, 2), (3, 2)] \<and>
   map_sum id (map s_id) (search_notes (\<lambda>q. None) tagged_notes None [] [1, 2]) = Inr [2]"
proof -
  have h: "[1, 2 :: int] \<noteq> []" "distinct [1, 2 :: int]" by simp_all
  have a: "map t_id (tags tagged_notes) = [1, 2]" by code_simp
  have b: "map (\<lambda>l. (nt_note_id l, nt_tag_id l)) (note_tags tagged_notes)
             = [(1, 1), (2, 1), (2, 2), (3, 2)]" by code_simp
  have c: "map s_id (map (summary tagged_notes)
             (order_limit (filter (\<lambda>n. folder_cond None n \<and> text_cond tagged_notes [] (\<lambda>e. True) n \<and>
                  set [1, 2] \<subseteq> note_tag_ids tagged_notes (n_id n)) (note_rows tagged_notes)))) = [2]"
    by code_simp
  from search_tag_filter [OF h, of "\<lambda>q. None" tagged_notes None "[]"] c
  have "map_sum id (map s_id) (search_notes (\<lambda>q. None) tagged_notes None [] [1, 2]) = Inr [2]"
    by simp
  with a b show ?thesis by simp
qed

text \<open>
  C10. When the list of tag identifiers has a repeated element, \<^verbatim>\<open>search_notes\<close> returns
  the empty list whatever the store holds: the count of distinct matching tags of a
  note is at most the number of distinct identifiers, which is less than the length of
  the list.
\<close>

theorem search_duplicate_tag_ids:
  "\<not> distinct tag_ids \<Longrightarrow> search_notes match db folder_id query tag_ids = Inr []"
proof -
  assume d: "\<not> distinct tag_ids"
  then have ne: "tag_ids \<noteq> []" by auto
  have "\<not> tag_cond db tag_ids n" for n
    using ne tag_subquery_duplicate [OF d] by (simp add: tag_cond_def)
  then show ?thesis
    by (simp add: search_notes_def execute_search_def order_limit_def
        split: option.splits error.splits sum.splits)
qed

theorem search_duplicate_tag_ids_witness:
  "map_sum id (map s_id) (search_notes (\<lambda>q. None) tagged_notes None [] [1]) = Inr [2, 1] \<and>
   search_notes (\<lambda>q. None) tagged_notes None [] [1, 1] = Inr []"
proof -
  have a: "map_sum id (map s_id) (search_notes (\<lambda>q. None) tagged_notes None [] [1]) = Inr [2, 1]"
    by code_simp
  have "\<not> distinct [1, 1 :: int]" by simp
  from search_duplicate_tag_ids [OF this, of "\<lambda>q. None" tagged_notes None "[]"] a
  show ?thesis by simp
qed

subsection \<open>Order and limit of the search\<close>

lemma length_order_limit: "length (order_limit rows) \<le> 1000"
  by (simp add: order_limit_def)

lemma sorted_order_limit:
  "sorted_wrt (\<lambda>a b. n_updated_at b \<le> n_updated_at a) (order_limit rows)"
proof -
  have "sorted (map (\<lambda>n. - n_updated_at n) (sort_key (\<lambda>n. - n_updated_at n) rows))"
    by (rule sorted_sort_key)
  then have "sorted_wrt (\<lambda>a b. n_updated_at b \<le> n_updated_at a)
               (sort_key (\<lambda>n. - n_updated_at n) rows)"
    by (simp add: sorted_wrt_map)
  then show ?thesis
    unfolding order_limit_def by (rule sorted_wrt_take)
qed

lemma search_notes_cases:
  "search_notes match db folder_id query tag_ids = Inr [] \<or>
   (\<exists>P. search_notes match db folder_id query tag_ids
          = Inr (map (summary db) (order_limit (filter P (note_rows db)))))"
  by (auto simp: search_notes_def execute_search_def split: option.splits)

text \<open>
  C7. Every call of \<^verbatim>\<open>search_notes\<close> returns a list of at most 1000 summaries in
  descending order of \<open>updated_at\<close>. Without folder, query and tags it returns the first
  1000 of all the notes in that order: its length is the smaller of 1000 and the number
  of notes, and up to 1000 notes every note is in it once.
\<close>

theorem search_order_and_cap:
  "(\<exists>rs. search_notes match db folder_id query tag_ids = Inr rs \<and> length rs \<le> 1000 \<and>
         sorted_wrt (\<lambda>a b. s_updated_at b \<le> s_updated_at a) rs) \<and>
   (\<exists>rs. search_notes match db None [] [] = Inr rs \<and>
         rs = map (summary db) (take 1000 (sort_key (\<lambda>n. - n_updated_at n) (note_rows db))) \<and>
         length rs = min 1000 (length (note_rows db)) \<and>
         (length (note_rows db) \<le> 1000 \<longrightarrow> mset (map s_id rs) = mset (map n_id (note_rows db))))"
proof (intro conjI)
  have s: "sorted_wrt (\<lambda>a b. s_updated_at b \<le> s_updated_at a) (map (summary db) (order_limit xs))" for xs
    using sorted_order_limit [of xs] by (simp add: sorted_wrt_map summary_def)
  from search_notes_cases [of match db folder_id query tag_ids]
  show "\<exists>rs. search_notes match db folder_id query tag_ids = Inr rs \<and> length rs \<le> 1000 \<and>
         sorted_wrt (\<lambda>a b. s_updated_at b \<le> s_updated_at a) rs"
    using s length_order_limit by auto
next
  let ?srt = "sort_key (\<lambda>n. - n_updated_at n) (note_rows db)"
  let ?rs = "map (summary db) (take 1000 ?srt)"
  have e: "search_notes match db None [] [] = Inr ?rs"
    by (simp add: search_notes_def execute_search_def folder_cond_def text_cond_def
        tag_cond_def order_limit_def)
  have l: "length ?rs = min 1000 (length (note_rows db))" by simp
  have c: "map s_id (map (summary db) xs) = map n_id xs" for xs
    by (simp add: summary_def)
  have m: "length (note_rows db) \<le> 1000 \<longrightarrow> mset (map s_id ?rs) = mset (map n_id (note_rows db))"
  proof
    assume "length (note_rows db) \<le> 1000"
    then have "take 1000 ?srt = ?srt" by simp
    then have "map s_id ?rs = map n_id ?srt" by (simp only: c)
    then show "mset (map s_id ?rs) = mset (map n_id (note_rows db))" by simp
  qed
  from e l m
  show "\<exists>rs. search_notes match db None [] [] = Inr rs \<and>
         rs = map (summary db) (take 1000 (sort_key (\<lambda>n. - n_updated_at n) (note_rows db))) \<and>
         length rs = min 1000 (length (note_rows db)) \<and>
         (length (note_rows db) \<le> 1000 \<longrightarrow> mset (map s_id rs) = mset (map n_id (note_rows db)))"
    by blast
qed

theorem search_order_and_cap_witness:
  "length (note_rows tagged_notes) \<le> 1000 \<and>
   (\<exists>rs. search_notes (\<lambda>q. None) tagged_notes None [] [] = Inr rs \<and>
         map s_id rs = [3, 2, 1] \<and> map s_updated_at rs = [30, 20, 10] \<and>
         mset (map s_id rs) = mset (map n_id (note_rows tagged_notes)))"
proof -
  have a: "length (note_rows tagged_notes) \<le> 1000" by code_simp
  from search_order_and_cap [of "\<lambda>q. None" tagged_notes None "[]" "[]"] a
  obtain rs where rs: "search_notes (\<lambda>q. None) tagged_notes None [] [] = Inr rs"
      "rs = map (summary tagged_notes)
              (take 1000 (sort_key (\<lambda>n. - n_updated_at n) (note_rows tagged_notes)))"
      "mset (map s_id rs) = mset (map n_id (note_rows tagged_notes))"
    by blast
  have i: "map s_id (map (summary tagged_notes)
              (take 1000 (sort_key (\<lambda>n. - n_updated_at n) (note_rows tagged_notes)))) = [3, 2, 1]"
    by code_simp
  have u: "map s_updated_at (map (summary tagged_notes)
              (take 1000 (sort_key (\<lambda>n. - n_updated_at n) (note_rows tagged_notes)))) = [30, 20, 10]"
    by code_simp
  from i rs(2) have i': "map s_id rs = [3, 2, 1]" by (simp only:)
  from u rs(2) have u': "map s_updated_at rs = [30, 20, 10]" by (simp only:)
  show ?thesis
    by (intro conjI exI[of _ rs]) (fact a, fact rs(1), fact i', fact u', fact rs(3))
qed

subsection \<open>Queries with special characters\<close>






subsection \<open>The text index follows the notes\<close>

lemma fold_update_mset:
  "mset idx = mset (map fts_entry ns) + R \<Longrightarrow>
   mset (fold (\<lambda>n idx. if P n then notes_au n (f n) idx else idx) ns idx)
     = mset (map fts_entry (map (\<lambda>n. if P n then f n else n) ns)) + R"
proof (induction ns arbitrary: idx R)
  case Nil
  then show ?case by simp
next
  case (Cons n ns)
  show ?case
  proof (cases "P n")
    case True
    have "mset (notes_au n (f n) idx) = mset (map fts_entry ns) + add_mset (fts_entry (f n)) R"
      using Cons.prems by (simp add: notes_au_def notes_ai_def notes_ad_def)
    from Cons.IH [OF this] True show ?thesis by simp
  next
    case False
    have "mset idx = mset (map fts_entry ns) + add_mset (fts_entry n) R"
      using Cons.prems by simp
    from Cons.IH [OF this] False show ?thesis by simp
  qed
qed

lemma fold_delete_mset:
  "mset idx = mset (map fts_entry ns) + R \<Longrightarrow>
   mset (fold (\<lambda>n idx. if P n then notes_ad n idx else idx) ns idx)
     = mset (map fts_entry (filter (\<lambda>n. \<not> P n) ns)) + R"
proof (induction ns arbitrary: idx R)
  case Nil
  then show ?case by simp
next
  case (Cons n ns)
  show ?case
  proof (cases "P n")
    case True
    have "mset (notes_ad n idx) = mset (map fts_entry ns) + R"
      using Cons.prems by (simp add: notes_ad_def)
    from Cons.IH [OF this] True show ?thesis by simp
  next
    case False
    have "mset idx = mset (map fts_entry ns) + add_mset (fts_entry n) R"
      using Cons.prems by simp
    from Cons.IH [OF this] False show ?thesis by simp
  qed
qed

lemma update_notes_where_synced:
  assumes "fts_synced db" and "\<And>n. n_id (f n) = n_id n"
  shows "fts_synced (update_notes_where P f db)"
proof -
  let ?g = "\<lambda>n. if P n then f n else n"
  have ids: "map n_id (map ?g ns) = map n_id ns" for ns
    using assms(2) by (induction ns) auto
  have d: "distinct (map n_id (map ?g (note_rows db)))"
    using assms(1) by (simp only: ids fts_synced_def)
  have m: "mset (fold (\<lambda>n idx. if P n then notes_au n (f n) idx else idx)
                    (note_rows db) (notes_fts db))
      = mset (map fts_entry (map ?g (note_rows db)))"
    using fold_update_mset [of "notes_fts db" "note_rows db" "{#}" P f] assms(1)
    by (simp add: fts_synced_def)
  have nr: "note_rows (update_notes_where P f db) = map ?g (note_rows db)"
    by (simp add: update_notes_where_def)
  have nf: "notes_fts (update_notes_where P f db)
      = fold (\<lambda>n idx. if P n then notes_au n (f n) idx else idx) (note_rows db) (notes_fts db)"
    by (simp add: update_notes_where_def)
  show ?thesis
    unfolding fts_synced_def nr nf using m d by (rule conjI)
qed

lemma fts_synced_cong:
  "note_rows db' = note_rows db \<Longrightarrow> notes_fts db' = notes_fts db \<Longrightarrow>
   fts_synced db' = fts_synced db"
  by (simp add: fts_synced_def)

lemma insert_or_lookup_tags_notes:
  "insert_or_lookup_tags names db ids = (ids', db') \<Longrightarrow>
   note_rows db' = note_rows db \<and> notes_fts db' = notes_fts db \<and> note_tags db' = note_tags db \<and>
   folders db' = folders db"
  by (induction names db ids rule: insert_or_lookup_tags.induct)
     (auto simp: Let_def split: if_splits option.splits)

lemma link_tags_notes:
  "link_tags nid tids db = (r, db') \<Longrightarrow>
   note_rows db' = note_rows db \<and> notes_fts db' = notes_fts db \<and> tags db' = tags db \<and>
   folders db' = folders db"
  by (induction nid tids db rule: link_tags.induct) (auto split: if_splits)

lemma set_note_tags_notes:
  "note_rows (snd (set_note_tags db nid names)) = note_rows db \<and>
   notes_fts (snd (set_note_tags db nid names)) = notes_fts db"
proof -
  obtain ids db1 where a: "insert_or_lookup_tags (map strip (filter (\<lambda>n. strip n \<noteq> []) names)) db [] = (ids, db1)"
    by (cases "insert_or_lookup_tags (map strip (filter (\<lambda>n. strip n \<noteq> []) names)) db []")
  let ?db2 = "db1\<lparr>note_tags := filter (\<lambda>l. nt_note_id l \<noteq> nid) (note_tags db1)\<rparr>"
  obtain r db3 where b: "link_tags nid ids ?db2 = (r, db3)"
    by (cases "link_tags nid ids ?db2")
  from insert_or_lookup_tags_notes [OF a] link_tags_notes [OF b]
  have "note_rows db3 = note_rows db \<and> notes_fts db3 = notes_fts db" by simp
  with a b show ?thesis
    by (cases r) (simp_all add: set_note_tags_def Let_def clean_unused_tags_def)
qed

lemma step_synced: "fts_synced db \<Longrightarrow> fts_synced (step db c)"
proof (cases c)
  case (CreateFolder name)
  assume "fts_synced db"
  then show ?thesis using CreateFolder
    by (simp add: create_folder_def Let_def fts_synced_def)
next
  case (RenameFolder fid name)
  assume "fts_synced db"
  then show ?thesis using RenameFolder
    by (simp add: rename_folder_def fts_synced_def)
next
  case (DeleteFolder fid)
  assume s: "fts_synced db"
  then have "fts_synced (db\<lparr>folders := filter (\<lambda>f. f_id f \<noteq> fid) (folders db)\<rparr>)"
    by (simp add: fts_synced_def)
  then have "fts_synced (update_notes_where (\<lambda>n. n_folder_id n = Some fid)
      (\<lambda>n. n\<lparr>n_folder_id := None\<rparr>) (db\<lparr>folders := filter (\<lambda>f. f_id f \<noteq> fid) (folders db)\<rparr>))"
    by (rule update_notes_where_synced) simp
  with s show ?thesis using DeleteFolder by (simp add: delete_folder_def)
next
  case (CreateNote fid title now)
  assume s: "fts_synced db"
  have "next_rowid (seq_notes db) (map n_id (note_rows db)) \<notin> set (map n_id (note_rows db))"
    by (rule next_rowid_fresh)
  with s show ?thesis using CreateNote
    by (simp add: create_note_def Let_def fts_synced_def notes_ai_def fts_entry_def)
next
  case (UpdateNote nid title content fid now)
  assume s: "fts_synced db"
  then have "fts_synced (update_notes_where (\<lambda>n. n_id n = nid)
      (\<lambda>n. n\<lparr>n_title := title, n_content := content, n_folder_id := fid, n_updated_at := now\<rparr>) db)"
    by (rule update_notes_where_synced) simp
  with s show ?thesis using UpdateNote by (simp add: update_note_def)
next
  case (DeleteNote nid)
  assume s: "fts_synced db"
  have "mset (fold (\<lambda>n idx. if n_id n = nid then notes_ad n idx else idx)
                 (note_rows db) (notes_fts db))
      = mset (map fts_entry (filter (\<lambda>n. n_id n \<noteq> nid) (note_rows db)))"
    using fold_delete_mset [of "notes_fts db" "note_rows db" "{#}" "\<lambda>n. n_id n = nid"] s
    by (simp add: fts_synced_def)
  moreover have "distinct (map n_id (filter (\<lambda>n. n_id n \<noteq> nid) (note_rows db)))"
    using s by (simp add: fts_synced_def distinct_map_filter)
  ultimately show ?thesis using DeleteNote
    by (simp add: delete_note_def fts_synced_def)
next
  case (MoveNote nid fid now)
  assume s: "fts_synced db"
  then have "fts_synced (update_notes_where (\<lambda>n. n_id n = nid)
      (\<lambda>n. n\<lparr>n_folder_id := fid, n_updated_at := now\<rparr>) db)"
    by (rule update_notes_where_synced) simp
  with s show ?thesis using MoveNote by (simp add: move_note_def)
next
  case (SetNoteTags nid names)
  assume s: "fts_synced db"
  with set_note_tags_notes [of db nid names] show ?thesis using SetNoteTags
    by (simp add: fts_synced_def)
qed

lemma run_synced: "fts_synced db \<Longrightarrow> fts_synced (run calls db)"
  unfolding run_def by (induction calls arbitrary: db) (simp_all add: step_synced)

lemma Database_synced: "fts_synced Database"
  by (simp add: fts_synced_def Database_def)

lemma filter_distinct_key:
  "distinct (map f xs) \<Longrightarrow> x \<in> set xs \<Longrightarrow> filter (\<lambda>y. f y = f x) xs = [x]"
proof (induction xs)
  case Nil
  then show ?case by simp
next
  case (Cons a xs)
  show ?case
  proof (cases "x = a")
    case True
    from Cons.prems(1) have "f a \<notin> f ` set xs" by simp
    then have "\<forall>y\<in>set xs. f y \<noteq> f a" by (metis imageI)
    then have "filter (\<lambda>y. f y = f a) xs = []"
      by (simp add: filter_empty_conv)
    with True show ?thesis by simp
  next
    case False
    with Cons show ?thesis by auto
  qed
qed

lemma synced_consistent:
  assumes "fts_synced db"
  shows "index_consistent db"
proof -
  from assms have m: "mset (notes_fts db) = mset (map fts_entry (note_rows db))"
    and d: "distinct (map n_id (note_rows db))" by (simp_all add: fts_synced_def)
  have a: "filter (\<lambda>e. fts_rowid e = n_id n) (notes_fts db) = [fts_entry n]"
    if n: "n \<in> set (note_rows db)" for n
  proof -
    have "mset (filter (\<lambda>e. fts_rowid e = n_id n) (notes_fts db))
        = mset (filter (\<lambda>e. fts_rowid e = n_id n) (map fts_entry (note_rows db)))"
      by (simp add: m)
    also have "filter (\<lambda>e. fts_rowid e = n_id n) (map fts_entry (note_rows db))
        = map fts_entry (filter (\<lambda>y. n_id y = n_id n) (note_rows db))"
      by (simp add: filter_map comp_def fts_entry_def)
    also have "\<dots> = [fts_entry n]"
      using filter_distinct_key [OF d n] by simp
    finally have "mset (filter (\<lambda>e. fts_rowid e = n_id n) (notes_fts db)) = mset [fts_entry n]" .
    then show ?thesis by (simp del: mset_filter)
  qed
  have b: "fts_rowid e \<in> set (map n_id (note_rows db))" if "e \<in> set (notes_fts db)" for e
  proof -
    from that have "e \<in># mset (notes_fts db)" by simp
    then have "e \<in> set (map fts_entry (note_rows db))" by (simp add: m)
    then show ?thesis by (auto simp: fts_entry_def)
  qed
  from a b show ?thesis by (simp add: index_consistent_def)
qed

lemma fold_where_none:
  "\<forall>m\<in>set ns. \<not> P m \<Longrightarrow> fold (\<lambda>m idx. if P m then g m idx else idx) ns idx = idx"
  by (induction ns arbitrary: idx) auto

lemma fold_where_one:
  "distinct (map n_id ns) \<Longrightarrow> find (\<lambda>m. n_id m = nid) ns = Some n \<Longrightarrow>
   fold (\<lambda>m idx. if n_id m = nid then g m idx else idx) ns idx = g n idx"
proof (induction ns arbitrary: idx)
  case Nil
  then show ?case by simp
next
  case (Cons a ns)
  show ?case
  proof (cases "n_id a = nid")
    case True
    with Cons.prems(2) have an: "a = n" by simp
    from Cons.prems(1) True have "nid \<notin> n_id ` set ns" by auto
    then have "\<forall>m\<in>set ns. \<not> n_id m = nid" by (metis imageI)
    then have "fold (\<lambda>m idx. if n_id m = nid then g m idx else idx) ns (g a idx) = g a idx"
      by (rule fold_where_none)
    with True an show ?thesis by simp
  next
    case False
    with Cons show ?thesis by simp
  qed
qed

lemma find_id: "find (\<lambda>m. n_id m = nid) ns = Some n \<Longrightarrow> n_id n = nid \<and> n \<in> set ns"
  by (induction ns) (auto split: if_splits)

text \<open>
  C1. In every state that a sequence of calls of the mutating methods reaches from a new
  store, the index is consistent with the notes: every note has exactly one entry, with
  its current title and body, and no entry belongs to a deleted note. The entries change
  inside the note operations themselves: \<^verbatim>\<open>create_note\<close> appends the entry of the new
  note, \<^verbatim>\<open>update_note\<close> removes the old entry of the note and appends the new one, and
  \<^verbatim>\<open>delete_note\<close> removes the entry of the note and leaves none under its identifier.
\<close>

theorem index_in_sync:
  "db = run calls Database \<Longrightarrow>
   index_consistent db \<and>
   (create_note db fid title now = (Inr i, db1) \<longrightarrow>
      notes_fts db1 = notes_fts db @ [\<lparr>fts_rowid = i, fts_title = title, fts_content = []\<rparr>]) \<and>
   (get_note db nid = Some n \<and> update_note db nid title' content' fid' now' = (Inr u, db2) \<longrightarrow>
      notes_fts db2 = remove1 (fts_entry n) (notes_fts db) @
        [\<lparr>fts_rowid = nid, fts_title = title', fts_content = content'\<rparr>]) \<and>
   (get_note db nid = Some n \<longrightarrow>
      notes_fts (snd (delete_note db nid)) = remove1 (fts_entry n) (notes_fts db) \<and>
      (\<forall>e \<in> set (notes_fts (snd (delete_note db nid))). fts_rowid e \<noteq> nid))"
proof -
  assume db: "db = run calls Database"
  then have s: "fts_synced db" by (simp add: run_synced Database_synced)
  then have d: "distinct (map n_id (note_rows db))" by (simp add: fts_synced_def)
  have c1: "index_consistent db" using s by (rule synced_consistent)
  have c2: "notes_fts db1 = notes_fts db @ [\<lparr>fts_rowid = i, fts_title = title, fts_content = []\<rparr>]"
    if "create_note db fid title now = (Inr i, db1)"
    using that by (auto simp: create_note_def Let_def notes_ai_def fts_entry_def split: if_splits)
  have c3: "notes_fts db2 = remove1 (fts_entry n) (notes_fts db) @
        [\<lparr>fts_rowid = nid, fts_title = title', fts_content = content'\<rparr>]"
    if a: "get_note db nid = Some n \<and> update_note db nid title' content' fid' now' = (Inr u, db2)"
  proof -
    from a have f: "find (\<lambda>m. n_id m = nid) (note_rows db) = Some n" by (simp add: get_note_def)
    from a have "notes_fts db2 = fold (\<lambda>m idx. if n_id m = nid
        then notes_au m (m\<lparr>n_title := title', n_content := content', n_folder_id := fid',
               n_updated_at := now'\<rparr>) idx else idx) (note_rows db) (notes_fts db)"
      by (auto simp: update_note_def update_notes_where_def split: if_splits)
    also have "\<dots> = notes_au n (n\<lparr>n_title := title', n_content := content', n_folder_id := fid',
               n_updated_at := now'\<rparr>) (notes_fts db)"
      using d f by (rule fold_where_one)
    finally show ?thesis
      using find_id [OF f] by (simp add: notes_au_def notes_ai_def notes_ad_def fts_entry_def)
  qed
  have c4: "notes_fts (snd (delete_note db nid)) = remove1 (fts_entry n) (notes_fts db) \<and>
      (\<forall>e \<in> set (notes_fts (snd (delete_note db nid))). fts_rowid e \<noteq> nid)"
    if a: "get_note db nid = Some n"
  proof
    from a have f: "find (\<lambda>m. n_id m = nid) (note_rows db) = Some n" by (simp add: get_note_def)
    have "notes_fts (snd (delete_note db nid)) =
        fold (\<lambda>m idx. if n_id m = nid then notes_ad m idx else idx) (note_rows db) (notes_fts db)"
      by (simp add: delete_note_def)
    also have "\<dots> = notes_ad n (notes_fts db)"
      using d f by (rule fold_where_one)
    finally show "notes_fts (snd (delete_note db nid)) = remove1 (fts_entry n) (notes_fts db)"
      by (simp add: notes_ad_def)
    have "snd (delete_note db nid) = run (calls @ [DeleteNote nid]) Database"
      using db by (simp add: run_def)
    then have "fts_synced (snd (delete_note db nid))"
      by (simp add: run_synced Database_synced)
    then have "index_consistent (snd (delete_note db nid))" by (rule synced_consistent)
    then have "\<forall>e \<in> set (notes_fts (snd (delete_note db nid))).
        fts_rowid e \<in> set (map n_id (note_rows (snd (delete_note db nid))))"
      by (simp add: index_consistent_def)
    moreover have "nid \<notin> set (map n_id (note_rows (snd (delete_note db nid))))"
      by (auto simp: delete_note_def)
    ultimately show "\<forall>e \<in> set (notes_fts (snd (delete_note db nid))). fts_rowid e \<noteq> nid"
      by metis
  qed
  from c1 c2 c3 c4 show ?thesis by blast
qed

theorem index_in_sync_witness:
  "index_consistent (run edited_notes Database) \<and>
   map n_id (note_rows (run edited_notes Database)) = [1] \<and>
   notes_fts (run edited_notes Database) = [\<lparr>fts_rowid = 1, fts_title = ''b'', fts_content = ''c''\<rparr>]"
proof -
  from index_in_sync [of "run edited_notes Database" edited_notes, OF refl]
  have "index_consistent (run edited_notes Database)" by (rule conjunct1)
  moreover have "map n_id (note_rows (run edited_notes Database)) = [1]" by code_simp
  moreover have "notes_fts (run edited_notes Database)
      = [\<lparr>fts_rowid = 1, fts_title = ''b'', fts_content = ''c''\<rparr>]" by code_simp
  ultimately show ?thesis by (intro conjI)
qed

end
